theory Spec2Isabelle
  imports Complex_Main
begin

section \<open>Numbers, parsing and formatting\<close>









subsection \<open>parseFloat\<close>


definition is_digit :: "char \<Rightarrow> bool" where
  "is_digit c = (c \<in> set ''0123456789'')"

definition digit_val :: "char \<Rightarrow> nat" where
  "digit_val c = of_char c - 48"

definition digits_val :: "string \<Rightarrow> nat" where
  "digits_val ds = foldl (\<lambda>n c. 10 * n + digit_val c) 0 ds"






subsection \<open>toFixed\<close>

fun show_nat :: "nat \<Rightarrow> string" where
  "show_nat n =
     (if n < 10 then [''0123456789'' ! n]
      else show_nat (n div 10) @ [''0123456789'' ! (n mod 10)])"

declare show_nat.simps [simp del]


section \<open>Arbitrage calculator: derived results\<close>





section \<open>Funding calculator: derived results\<close>

text \<open>
  \<^verbatim>\<open>calculations\<close> of the funding component, over the five text fields it depends on.
\<close>

record FundingResult =
  netProfitRate :: real
  netProfitUSD :: real
  dailyProfitUSD :: real
  monthlyProfitUSD :: real
  annualProfitUSD :: real
  margin :: real
  apy :: real





definition zero_result :: FundingResult where
  "zero_result = \<lparr>netProfitRate = 0, netProfitUSD = 0, dailyProfitUSD = 0, monthlyProfitUSD = 0,
     annualProfitUSD = 0, margin = 0, apy = 0\<rparr>"

section \<open>Calculator instances\<close>

text \<open>
  Instances are plain JavaScript objects: they are created from object literals, patched
  with object spread, written to storage as JSON and read back without validation. An
  object is modelled as a map from field names to values, \<open>None\<close> standing for
  \<^verbatim>\<open>undefined\<close>; the spread \<^verbatim>\<open>{...a, ...b}\<close> is then \<open>a ++ b\<close>. The order of the keys of an
  object is not represented. Identifiers are compared with \<^verbatim>\<open>===\<close>; on the numbers that
  identifiers are, this is equality of values.
\<close>

datatype jval =
    JNull
  | JBool bool
  | JNum real
  | JStr string
  | JArr "jval list"
  | JObj "string \<Rightarrow> jval option"

type_synonym CalculatorState = "string \<Rightarrow> jval option"

datatype error = TypeError | SyntaxError | StorageError

fun truthy :: "jval option \<Rightarrow> bool" where
  "truthy None = False"
| "truthy (Some JNull) = False"
| "truthy (Some (JBool b)) = b"
| "truthy (Some (JNum n)) = (n \<noteq> 0)"
| "truthy (Some (JStr s)) = (s \<noteq> [])"
| "truthy (Some (JArr xs)) = True"
| "truthy (Some (JObj f)) = True"

text \<open>\<^verbatim>\<open>v || d\<close> on a field value.\<close>

fun jval_or :: "jval option \<Rightarrow> jval \<Rightarrow> jval" where
  "jval_or None d = d"
| "jval_or (Some v) d = (if truthy (Some v) then v else d)"

definition cid :: "CalculatorState \<Rightarrow> jval option" where
  "cid c = c ''id''"

text \<open>
  \<^verbatim>\<open>getNewCalculator(id, count)\<close> and \<^verbatim>\<open>getNewFundingCalculator(id, count)\<close>. The arbitrage
  template reads the clock for the identifier of its single purchase entry; that reading is
  the first argument here.
\<close>

definition getNewCalculator :: "real \<Rightarrow> real \<Rightarrow> nat \<Rightarrow> CalculatorState" where
  "getNewCalculator now i count =
     [''id'' \<mapsto> JNum i,
      ''type'' \<mapsto> JStr ''arbitrage'',
      ''name'' \<mapsto> JStr (''C '' @ show_nat count),
      ''openingExch1'' \<mapsto> JStr [],
      ''openingExch2'' \<mapsto> JStr [],
      ''closingExch1'' \<mapsto> JStr [],
      ''closingExch2'' \<mapsto> JStr [],
      ''totalCoins'' \<mapsto> JStr [],
      ''purchases'' \<mapsto> JArr [JObj [''value'' \<mapsto> JStr [], ''id'' \<mapsto> JNum now]],
      ''showAverage'' \<mapsto> JBool False]"

definition getNewFundingCalculator :: "real \<Rightarrow> nat \<Rightarrow> CalculatorState" where
  "getNewFundingCalculator i count =
     [''id'' \<mapsto> JNum i,
      ''type'' \<mapsto> JStr ''funding'',
      ''name'' \<mapsto> JStr (''FR '' @ show_nat count),
      ''positionSize'' \<mapsto> JStr [],
      ''leverage'' \<mapsto> JStr ''10'',
      ''fundingInterval'' \<mapsto> JStr ''8'',
      ''shortExchangeName'' \<mapsto> JStr ''Ex A (Short)'',
      ''shortExchangeFR'' \<mapsto> JStr [],
      ''longExchangeName'' \<mapsto> JStr ''Ex B (Long)'',
      ''longExchangeFR'' \<mapsto> JStr [],
      ''log'' \<mapsto> JArr []]"

section \<open>The tab store\<close>

text \<open>
  The state of the tab store: the calculator collection in tab order and the active
  identifier. Theme and window preferences are held beside it and play no part in the
  operations below.
\<close>

record tabs =
  calculators :: "CalculatorState list"
  activeTabId :: "jval option"

text \<open>The initial state of the component, before anything is loaded.\<close>

definition initial_tabs :: "real \<Rightarrow> real \<Rightarrow> tabs" where
  "initial_tabs now_id now_p =
     \<lparr>calculators = [getNewCalculator now_p now_id 1], activeTabId = Some (JNum now_id)\<rparr>"

definition handleUpdateInstance :: "CalculatorState \<Rightarrow> tabs \<Rightarrow> tabs" where
  "handleUpdateInstance partialState st =
     st\<lparr>calculators :=
          map (\<lambda>calc. if cid calc = activeTabId st then calc ++ partialState else calc)
            (calculators st)\<rparr>"

definition handleClearActiveTabFields :: "real \<Rightarrow> tabs \<Rightarrow> tabs" where
  "handleClearActiveTabFields now st =
     st\<lparr>calculators :=
          map (\<lambda>calc.
                 if cid calc = activeTabId st
                 then (if calc ''type'' = Some (JStr ''funding'')
                       then calc ++ [''positionSize'' \<mapsto> JStr [], ''shortExchangeFR'' \<mapsto> JStr [],
                                     ''longExchangeFR'' \<mapsto> JStr [], ''log'' \<mapsto> JArr []]
                       else calc ++ [''openingExch1'' \<mapsto> JStr [], ''openingExch2'' \<mapsto> JStr [],
                                     ''closingExch1'' \<mapsto> JStr [], ''closingExch2'' \<mapsto> JStr [],
                                     ''totalCoins'' \<mapsto> JStr [],
                                     ''purchases'' \<mapsto>
                                        JArr [JObj [''value'' \<mapsto> JStr [], ''id'' \<mapsto> JNum now]]])
                 else calc)
            (calculators st)\<rparr>"

definition handleRenameTab :: "jval option \<Rightarrow> string \<Rightarrow> tabs \<Rightarrow> tabs" where
  "handleRenameTab i newName st =
     st\<lparr>calculators :=
          map (\<lambda>calc. if cid calc = i then calc(''name'' \<mapsto> JStr newName) else calc)
            (calculators st)\<rparr>"

subsection \<open>Adding a tab\<close>

text \<open>
  The number a tab name stands for: the name has to be the prefix (\<^verbatim>\<open>C \<close> or \<^verbatim>\<open>FR \<close>)
  followed by one or more decimal digits and nothing else, as the patterns
  \<^verbatim>\<open>/^C (\d+)$/\<close> and \<^verbatim>\<open>/^FR (\d+)$/\<close> require; any other name counts as 0. Numbers are
  natural numbers of any size here.
\<close>

definition tab_number :: "string \<Rightarrow> string \<Rightarrow> nat" where
  "tab_number prefix name =
     (let rest = drop (length prefix) name
      in if take (length prefix) name = prefix \<and> rest \<noteq> [] \<and> list_all is_digit rest
         then digits_val rest else 0)"

text \<open>\<^verbatim>\<open>c.name.match(...)\<close> raises a TypeError when the name is not a string.\<close>

fun existingNumbers :: "string \<Rightarrow> CalculatorState list \<Rightarrow> error + nat list" where
  "existingNumbers prefix [] = Inr []"
| "existingNumbers prefix (c # cs) =
     (case c ''name'' of
        Some (JStr name) \<Rightarrow>
          (case existingNumbers prefix cs of
             Inl e \<Rightarrow> Inl e
           | Inr ns \<Rightarrow> Inr (tab_number prefix name # ns))
      | _ \<Rightarrow> Inl TypeError)"

text \<open>The scan over the sorted numbers: count up while they match, stop at the first that does not.\<close>

fun newCount :: "nat \<Rightarrow> nat list \<Rightarrow> nat" where
  "newCount n [] = n"
| "newCount n (num # nums) = (if num = n then newCount (n + 1) nums else n)"

definition handleAddArbitrageTab :: "real \<Rightarrow> real \<Rightarrow> tabs \<Rightarrow> error + tabs" where
  "handleAddArbitrageTab newId now_p st =
     (case existingNumbers ''C ''
             (filter (\<lambda>c. c ''type'' = Some (JStr ''arbitrage'')) (calculators st)) of
        Inl e \<Rightarrow> Inl e
      | Inr ns \<Rightarrow>
          Inr \<lparr>calculators = calculators st @ [getNewCalculator now_p newId (newCount 1 (sort ns))],
               activeTabId = Some (JNum newId)\<rparr>)"

definition handleAddFundingTab :: "real \<Rightarrow> tabs \<Rightarrow> error + tabs" where
  "handleAddFundingTab newId st =
     (case existingNumbers ''FR ''
             (filter (\<lambda>c. c ''type'' = Some (JStr ''funding'')) (calculators st)) of
        Inl e \<Rightarrow> Inl e
      | Inr ns \<Rightarrow>
          Inr \<lparr>calculators = calculators st @ [getNewFundingCalculator newId (newCount 1 (sort ns))],
               activeTabId = Some (JNum newId)\<rparr>)"

subsection \<open>Removing a tab\<close>

text \<open>\<^verbatim>\<open>findIndex\<close>: the position of the first match, \<open>-1\<close> when there is none.\<close>

fun findIndex :: "('a \<Rightarrow> bool) \<Rightarrow> 'a list \<Rightarrow> int" where
  "findIndex P [] = - 1"
| "findIndex P (x # xs) =
     (if P x then 0 else (let i = findIndex P xs in if i < 0 then - 1 else i + 1))"

text \<open>
  Reading \<^verbatim>\<open>remainingCalculators[newActiveIndex].id\<close> raises a TypeError when the index is
  out of range.
\<close>

definition handleRemoveTab :: "real \<Rightarrow> real \<Rightarrow> jval option \<Rightarrow> tabs \<Rightarrow> error + tabs" where
  "handleRemoveTab newId now_p idToRemove st =
     (let currentTabIndex = findIndex (\<lambda>c. cid c = idToRemove) (calculators st);
          remainingCalculators = filter (\<lambda>c. cid c \<noteq> idToRemove) (calculators st)
      in if remainingCalculators = []
         then Inr \<lparr>calculators = [getNewCalculator now_p newId 1], activeTabId = Some (JNum newId)\<rparr>
         else if idToRemove = activeTabId st
         then (let newActiveIndex = nat (max 0 (currentTabIndex - 1))
               in if newActiveIndex < length remainingCalculators
                  then Inr \<lparr>calculators = remainingCalculators,
                            activeTabId = cid (remainingCalculators ! newActiveIndex)\<rparr>
                  else Inl TypeError)
         else Inr \<lparr>calculators = remainingCalculators, activeTabId = activeTabId st\<rparr>)"

subsection \<open>Loading the settings\<close>

text \<open>
  A settings snapshot as it comes out of \<^verbatim>\<open>JSON.parse\<close>: the calculator list and the active
  identifier, either of which may be missing.
\<close>

record settings =
  s_calculators :: "CalculatorState list option"
  s_activeTabId :: "jval option"

text \<open>The overlay of the local instances on the remote list.\<close>

definition mergeCalculators :: "CalculatorState list \<Rightarrow> CalculatorState list \<Rightarrow> CalculatorState list" where
  "mergeCalculators cloud local =
     map (\<lambda>cloudCalc.
            case find (\<lambda>lc. cid lc = cid cloudCalc) local of
              Some localMatch \<Rightarrow> cloudCalc ++ localMatch
            | None \<Rightarrow> cloudCalc)
       cloud"

text \<open>The template an instance is completed against, chosen by its \<^verbatim>\<open>type\<close> field.\<close>

definition defaultState :: "real \<Rightarrow> CalculatorState \<Rightarrow> CalculatorState" where
  "defaultState now calc =
     (if calc ''type'' = Some (JStr ''funding'')
      then getNewFundingCalculator 0 0 else getNewCalculator now 0 0)"

definition migrate :: "real \<Rightarrow> CalculatorState \<Rightarrow> CalculatorState" where
  "migrate now calc =
     (defaultState now calc ++ calc)
       (''type'' \<mapsto> jval_or (calc ''type'') (JStr ''arbitrage''),
        ''log'' \<mapsto> jval_or (calc ''log'') (JArr []))"

text \<open>
  Each instance is completed with its own reading of the clock; \<open>clock k\<close> is the reading
  for the instance at position \<open>k\<close>.
\<close>

definition migratedCalculators :: "(nat \<Rightarrow> real) \<Rightarrow> CalculatorState list \<Rightarrow> CalculatorState list" where
  "migratedCalculators clock calcs =
     map (\<lambda>(k, calc). migrate (clock k) calc) (enumerate 0 calcs)"

text \<open>
  The merge step: with both snapshots present the calculator list of the base snapshot is
  replaced by the overlay. Calling \<^verbatim>\<open>map\<close> or \<^verbatim>\<open>find\<close> on a missing list raises a TypeError;
  \<^verbatim>\<open>find\<close> is only reached when the remote list has an element.
\<close>

definition mergedCalculators ::
  "settings option \<Rightarrow> settings option \<Rightarrow> settings \<Rightarrow> error + CalculatorState list option" where
  "mergedCalculators cloudSettings localSettings baseSettings =
     (case (cloudSettings, localSettings) of
        (Some cloud, Some local) \<Rightarrow>
          (case s_calculators cloud of
             None \<Rightarrow> Inl TypeError
           | Some cc \<Rightarrow>
               (case s_calculators local of
                  None \<Rightarrow> if cc = [] then Inr (Some []) else Inl TypeError
                | Some lc \<Rightarrow> Inr (Some (mergeCalculators cc lc))))
      | _ \<Rightarrow> Inr (s_calculators baseSettings))"

definition loadSettings ::
  "(nat \<Rightarrow> real) \<Rightarrow> settings option \<Rightarrow> settings option \<Rightarrow> tabs \<Rightarrow> error + tabs" where
  "loadSettings clock cloudSettings localSettings st =
     (case (case cloudSettings of Some cloud \<Rightarrow> Some cloud | None \<Rightarrow> localSettings) of
        None \<Rightarrow> Inr st
      | Some baseSettings \<Rightarrow>
          (case mergedCalculators cloudSettings localSettings baseSettings of
             Inl e \<Rightarrow> Inl e
           | Inr None \<Rightarrow> Inr st
           | Inr (Some []) \<Rightarrow> Inr st
           | Inr (Some (c # cs)) \<Rightarrow>
               (let migrated = migratedCalculators clock (c # cs)
                in Inr \<lparr>calculators = migrated,
                        activeTabId =
                          (if truthy (s_activeTabId baseSettings)
                           then s_activeTabId baseSettings
                           else cid (hd migrated))\<rparr>)))"

text \<open>
  The state after the load. The load runs as an asynchronous function: an error raised in
  it leaves the state as it was.
\<close>

definition stateAfterLoad ::
  "(nat \<Rightarrow> real) \<Rightarrow> settings option \<Rightarrow> settings option \<Rightarrow> tabs \<Rightarrow> tabs" where
  "stateAfterLoad clock cloudSettings localSettings st =
     (case loadSettings clock cloudSettings localSettings st of Inl e \<Rightarrow> st | Inr st' \<Rightarrow> st')"

subsection \<open>Well-formed states and sequences of operations\<close>

text \<open>
  The collection is non-empty and the active identifier is the identifier of one of its
  members.
\<close>

definition tabs_ok :: "tabs \<Rightarrow> bool" where
  "tabs_ok st = (calculators st \<noteq> [] \<and> activeTabId st \<in> set (map cid (calculators st)))"

text \<open>
  The tab operations, each with the clock readings it takes. The patches of
  \<^verbatim>\<open>handleUpdateInstance\<close> are object literals over the content fields listed in
  \<open>content_fields\<close> at every call site.
\<close>

datatype tab_op =
    AddArbitrage real real
  | AddFunding real
  | RemoveTab "jval option" real real
  | RenameTab "jval option" string
  | UpdateInstance CalculatorState
  | ClearFields real

definition content_fields :: "string set" where
  "content_fields =
     {''openingExch1'', ''openingExch2'', ''closingExch1'', ''closingExch2'', ''totalCoins'',
      ''purchases'', ''showAverage'', ''positionSize'', ''leverage'', ''fundingInterval'',
      ''shortExchangeName'', ''shortExchangeFR'', ''longExchangeName'', ''longExchangeFR'',
      ''log''}"

fun op_ok :: "tab_op \<Rightarrow> bool" where
  "op_ok (UpdateInstance partialState) = (dom partialState \<subseteq> content_fields)"
| "op_ok _ = True"

fun apply_op :: "tab_op \<Rightarrow> tabs \<Rightarrow> error + tabs" where
  "apply_op (AddArbitrage newId now_p) st = handleAddArbitrageTab newId now_p st"
| "apply_op (AddFunding newId) st = handleAddFundingTab newId st"
| "apply_op (RemoveTab i newId now_p) st = handleRemoveTab newId now_p i st"
| "apply_op (RenameTab i newName) st = Inr (handleRenameTab i newName st)"
| "apply_op (UpdateInstance partialState) st = Inr (handleUpdateInstance partialState st)"
| "apply_op (ClearFields now) st = Inr (handleClearActiveTabFields now st)"

text \<open>An operation that raises leaves the state as it was.\<close>

definition step :: "tabs \<Rightarrow> tab_op \<Rightarrow> tabs" where
  "step st op = (case apply_op op st of Inl e \<Rightarrow> st | Inr st' \<Rightarrow> st')"

definition run :: "tab_op list \<Rightarrow> tabs \<Rightarrow> tabs" where
  "run ops st = foldl step st ops"

text \<open>The names on the tabs, in tab order.\<close>

definition tab_names :: "tabs \<Rightarrow> jval option list" where
  "tab_names st = map (\<lambda>c. c ''name'') (calculators st)"

text \<open>
  A snapshot whose active identifier, when it has one, names one of its calculators.
\<close>

definition settings_ok :: "settings \<Rightarrow> bool" where
  "settings_ok s =
     (truthy (s_activeTabId s) \<longrightarrow>
        (case s_calculators s of
           None \<Rightarrow> False
         | Some cs \<Rightarrow> s_activeTabId s \<in> set (map cid cs)))"

section \<open>History and funding log\<close>

text \<open>
  \<^verbatim>\<open>handleLogPeriod\<close> of the funding component: the log it passes to the update, or \<open>None\<close>
  when it returns without updating. \<^verbatim>\<open>slice(0, 100)\<close> keeps the first hundred elements.
\<close>

definition handleLogPeriod ::
  "FundingResult \<Rightarrow> real \<Rightarrow> string \<Rightarrow> jval list \<Rightarrow> jval list option" where
  "handleLogPeriod calc now stamp logEntries =
     (if netProfitUSD calc = 0 then None
      else Some (take 100
             (JObj [''id'' \<mapsto> JNum now, ''timestamp'' \<mapsto> JStr stamp,
                    ''profit'' \<mapsto> JNum (netProfitUSD calc), ''rate'' \<mapsto> JNum (netProfitRate calc)]
              # logEntries)))"

record HistoryEntry =
  h_id :: real
  h_timestamp :: string
  h_type :: string
  h_inputs :: jval
  h_result :: string
  h_tabName :: string

definition addToHistory ::
  "string \<Rightarrow> jval \<Rightarrow> string \<Rightarrow> string \<Rightarrow> real \<Rightarrow> string \<Rightarrow> HistoryEntry list \<Rightarrow> HistoryEntry list" where
  "addToHistory type inputs result tabName now stamp history =
     (if result = [] \<or> result = ''0.00'' \<or> result = ''0.0000'' then history
      else take 50
             (\<lparr>h_id = now, h_timestamp = stamp, h_type = type, h_inputs = inputs,
               h_result = result, h_tabName = tabName\<rparr> # history))"

text \<open>Sequences of insertions: the arguments of each call, applied in order.\<close>

definition logPeriods :: "(FundingResult \<times> real \<times> string) list \<Rightarrow> jval list \<Rightarrow> jval list" where
  "logPeriods calls logEntries =
     foldl (\<lambda>l (calc, now, stamp). case handleLogPeriod calc now stamp l of None \<Rightarrow> l | Some l' \<Rightarrow> l')
       logEntries calls"

definition addAllToHistory ::
  "(string \<times> jval \<times> string \<times> string \<times> real \<times> string) list \<Rightarrow> HistoryEntry list \<Rightarrow> HistoryEntry list" where
  "addAllToHistory calls history =
     foldl (\<lambda>h (type, inputs, result, tabName, now, stamp). addToHistory type inputs result tabName now stamp h)
       history calls"

section \<open>Reading device-local storage\<close>

text \<open>
  What \<^verbatim>\<open>localStorage.getItem\<close> followed by \<^verbatim>\<open>JSON.parse\<close> comes to: nothing stored under the
  key, a read that raises, text that is not JSON (the parse raises a SyntaxError), or a
  value.
\<close>

datatype 'a stored = Absent | Unreadable | Corrupt | Stored 'a

text \<open>
  The local settings are read inside \<^verbatim>\<open>try\<close>/\<^verbatim>\<open>catch\<close>: a failure is logged and the snapshot
  counts as missing.
\<close>

definition readLocalSettings :: "settings stored \<Rightarrow> settings option" where
  "readLocalSettings r = (case r of Stored s \<Rightarrow> Some s | _ \<Rightarrow> None)"

text \<open>
  The history is read in the body of the mount effect, after the call of the loader and
  outside any \<^verbatim>\<open>try\<close>: a failure leaves the effect as an exception.
\<close>

definition readHistory :: "HistoryEntry list stored \<Rightarrow> HistoryEntry list \<Rightarrow> error + HistoryEntry list" where
  "readHistory r history =
     (case r of
        Absent \<Rightarrow> Inr history
      | Unreadable \<Rightarrow> Inl StorageError
      | Corrupt \<Rightarrow> Inl SyntaxError
      | Stored h \<Rightarrow> Inr h)"

definition mountEffect ::
  "(nat \<Rightarrow> real) \<Rightarrow> settings option \<Rightarrow> settings stored \<Rightarrow> HistoryEntry list stored \<Rightarrow>
     tabs \<times> HistoryEntry list \<Rightarrow> error + tabs \<times> HistoryEntry list" where
  "mountEffect clock cloudSettings localRead historyRead s =
     (let st' = stateAfterLoad clock cloudSettings (readLocalSettings localRead) (fst s)
      in case readHistory historyRead (snd s) of
           Inl e \<Rightarrow> Inl e
         | Inr h \<Rightarrow> Inr (st', h))"

section \<open>Evaluation rules\<close>



section \<open>Percentage difference\<close>



section \<open>Average price\<close>













section \<open>Funding projection\<close>





section \<open>Removing a tab\<close>

lemma findIndex_distinct:
  "distinct (map f xs) \<Longrightarrow> i < length xs \<Longrightarrow> findIndex (\<lambda>c. f c = f (xs ! i)) xs = int i"
proof (induction xs arbitrary: i)
  case Nil
  then show ?case by simp
next
  case (Cons x xs)
  show ?case
  proof (cases i)
    case 0
    then show ?thesis by simp
  next
    case (Suc j)
    with Cons.prems have j: "j < length xs" and d: "distinct (map f xs)"
      and n: "f x \<noteq> f (xs ! j)"
      by auto
    from Cons.IH [OF d j] Suc n show ?thesis by simp
  qed
qed

lemma filter_distinct_remove:
  "distinct (map f xs) \<Longrightarrow> i < length xs \<Longrightarrow>
   filter (\<lambda>c. f c \<noteq> f (xs ! i)) xs = take i xs @ drop (Suc i) xs"
proof (induction xs arbitrary: i)
  case Nil
  then show ?case by simp
next
  case (Cons x xs)
  show ?case
  proof (cases i)
    case 0
    from Cons.prems have "f x \<notin> f ` set xs" by simp
    then have "\<forall>y\<in>set xs. f y \<noteq> f x" by (metis image_eqI)
    then have "filter (\<lambda>c. f c \<noteq> f x) xs = xs" by (simp add: filter_id_conv)
    with 0 show ?thesis by simp
  next
    case (Suc j)
    with Cons.prems have j: "j < length xs" and d: "distinct (map f xs)"
      and n: "f x \<noteq> f (xs ! j)"
      by auto
    from Cons.IH [OF d j] Suc n show ?thesis by simp
  qed
qed

lemma member_index:
  "x \<in> set (map f xs) \<Longrightarrow> \<exists>i<length xs. f (xs ! i) = x"
  by (auto simp: in_set_conv_nth)

text \<open>
  Removing a member of a collection with distinct identifiers and at least two instances:
  exactly that instance goes, the others stay as they are and in their order, and the
  active identifier moves only when the removed instance was active.
\<close>

lemma handleRemoveTab_distinct:
  assumes d: "distinct (map cid cs)" and i: "i < length cs" and l: "1 < length cs"
  shows "handleRemoveTab newId now_p (cid (cs ! i)) \<lparr>calculators = cs, activeTabId = a\<rparr> =
         Inr \<lparr>calculators = take i cs @ drop (Suc i) cs,
              activeTabId = (if cid (cs ! i) = a then cid (cs ! (if i = 0 then 1 else i - 1)) else a)\<rparr>"
proof -
  let ?r = "take i cs @ drop (Suc i) cs"
  have f: "filter (\<lambda>c. cid c \<noteq> cid (cs ! i)) cs = ?r"
    using filter_distinct_remove [OF d i] .
  have x: "findIndex (\<lambda>c. cid c = cid (cs ! i)) cs = int i"
    using findIndex_distinct [OF d i] .
  have len: "length ?r = length cs - 1" using i by simp
  with l have ne: "?r \<noteq> []" by (metis length_0_conv zero_less_diff less_numeral_extra(3))
  have k: "nat (max 0 (int i - 1)) = i - 1" by simp
  have r: "i - 1 < length ?r" using len i l by simp
  have n: "?r ! (i - 1) = cs ! (if i = 0 then 1 else i - 1)"
  proof (cases "i = 0")
    case True
    with l show ?thesis by (simp add: nth_append)
  next
    case False
    with i show ?thesis by (simp add: nth_append)
  qed
  show ?thesis
    unfolding handleRemoveTab_def Let_def
    by (simp only: tabs.simps f x k ne r n if_True if_False split: if_splits) simp
qed


text \<open>
  Claim C10. For every collection with at least two instances and every member id
  different from the active id, \<^verbatim>\<open>removeTab(id)\<close> leaves the active id unchanged and leaves
  every remaining instance unchanged field for field, in the same relative order.
  Collections have distinct identifiers.
\<close>

theorem handleRemoveTab_frame:
  assumes "2 \<le> length cs" and "distinct (map cid cs)"
    and "idToRemove \<in> set (map cid cs)" and "idToRemove \<noteq> a"
  shows "\<exists>i<length cs. cid (cs ! i) = idToRemove \<and>
           handleRemoveTab newId now_p idToRemove \<lparr>calculators = cs, activeTabId = a\<rparr> =
           Inr \<lparr>calculators = take i cs @ drop (Suc i) cs, activeTabId = a\<rparr>"
proof -
  from member_index [OF assms(3)] obtain i where i: "i < length cs" "cid (cs ! i) = idToRemove"
    by blast
  from assms(1) have l: "1 < length cs" by simp
  have "handleRemoveTab newId now_p idToRemove \<lparr>calculators = cs, activeTabId = a\<rparr> =
        Inr \<lparr>calculators = take i cs @ drop (Suc i) cs,
             activeTabId = (if idToRemove = a then cid (cs ! (if i = 0 then 1 else i - 1)) else a)\<rparr>"
    using handleRemoveTab_distinct [OF assms(2) i(1) l, of newId now_p a] unfolding i(2) .
  with assms(4)
  have "handleRemoveTab newId now_p idToRemove \<lparr>calculators = cs, activeTabId = a\<rparr> =
        Inr \<lparr>calculators = take i cs @ drop (Suc i) cs, activeTabId = a\<rparr>"
    by simp
  with i show ?thesis by blast
qed

section \<open>Caps of the funding log and the history\<close>

lemma handleLogPeriod_length:
  "length logEntries \<le> 100 \<Longrightarrow>
   length (case handleLogPeriod calc now stamp logEntries of None \<Rightarrow> logEntries | Some l' \<Rightarrow> l') \<le> 100"
  by (simp add: handleLogPeriod_def)

lemma logPeriods_length:
  "length logEntries \<le> 100 \<Longrightarrow> length (logPeriods calls logEntries) \<le> 100"
  unfolding logPeriods_def
proof (induction calls arbitrary: logEntries)
  case Nil
  then show ?case by simp
next
  case (Cons c calls)
  obtain calc now stamp where c: "c = (calc, now, stamp)" by (cases c)
  from handleLogPeriod_length [OF Cons.prems, of calc now stamp]
  show ?case unfolding c by (simp add: Cons.IH)
qed

lemma addToHistory_length:
  "length history \<le> 50 \<Longrightarrow>
   length (addToHistory type inputs result tabName now stamp history) \<le> 50"
  by (simp add: addToHistory_def)

lemma addAllToHistory_length:
  "length history \<le> 50 \<Longrightarrow> length (addAllToHistory calls history) \<le> 50"
  unfolding addAllToHistory_def
proof (induction calls arbitrary: history)
  case Nil
  then show ?case by simp
next
  case (Cons c calls)
  obtain type inputs result tabName now stamp
    where c: "c = (type, inputs, result, tabName, now, stamp)" by (cases c)
  from addToHistory_length [OF Cons.prems, of type inputs result tabName now stamp]
  show ?case unfolding c by (simp add: Cons.IH)
qed

text \<open>
  Claim C8. For every sequence of insertions, the funding log of an instance never exceeds
  100 entries and the history never exceeds 50 entries; an insertion puts the new entry
  first and keeps the 99 (resp. 49) entries that follow it, so the oldest entries are the
  ones that go.
\<close>

theorem log_and_history_caps:
  "(length logEntries \<le> 100 \<longrightarrow> length (logPeriods calls logEntries) \<le> 100) \<and>
   length (logPeriods calls []) \<le> 100 \<and>
   (length history \<le> 50 \<longrightarrow> length (addAllToHistory hcalls history) \<le> 50) \<and>
   length (addAllToHistory hcalls []) \<le> 50 \<and>
   (netProfitUSD calc \<noteq> 0 \<longrightarrow>
      handleLogPeriod calc now stamp logEntries =
      Some (JObj [''id'' \<mapsto> JNum now, ''timestamp'' \<mapsto> JStr stamp,
                  ''profit'' \<mapsto> JNum (netProfitUSD calc), ''rate'' \<mapsto> JNum (netProfitRate calc)]
            # take 99 logEntries)) \<and>
   (result \<noteq> [] \<and> result \<noteq> ''0.00'' \<and> result \<noteq> ''0.0000'' \<longrightarrow>
      addToHistory type inputs result tabName now stamp history =
      \<lparr>h_id = now, h_timestamp = stamp, h_type = type, h_inputs = inputs,
        h_result = result, h_tabName = tabName\<rparr> # take 49 history)"
  using logPeriods_length [of logEntries calls] logPeriods_length [of "[]" calls]
    addAllToHistory_length [of history hcalls] addAllToHistory_length [of "[]" hcalls]
  by (simp add: handleLogPeriod_def addToHistory_def)

section \<open>The active identifier always names a member\<close>

lemma cid_getNewCalculator: "cid (getNewCalculator now i n) = Some (JNum i)"
  by (simp add: cid_def getNewCalculator_def)

lemma cid_getNewFundingCalculator: "cid (getNewFundingCalculator i n) = Some (JNum i)"
  by (simp add: cid_def getNewFundingCalculator_def)

lemma tabs_ok_initial: "tabs_ok (initial_tabs newId now_p)"
  by (simp add: tabs_ok_def initial_tabs_def cid_getNewCalculator)

lemma tabs_ok_add_arbitrage:
  "handleAddArbitrageTab newId now_p st = Inr st' \<Longrightarrow> tabs_ok st'"
  by (auto simp: handleAddArbitrageTab_def tabs_ok_def cid_getNewCalculator split: sum.splits)

lemma tabs_ok_add_funding:
  "handleAddFundingTab newId st = Inr st' \<Longrightarrow> tabs_ok st'"
  by (auto simp: handleAddFundingTab_def tabs_ok_def cid_getNewFundingCalculator split: sum.splits)

lemma tabs_ok_remove:
  assumes ok: "tabs_ok st" and r: "handleRemoveTab newId now_p x st = Inr st'"
  shows "tabs_ok st'"
proof -
  let ?rem = "filter (\<lambda>c. cid c \<noteq> x) (calculators st)"
  show ?thesis
  proof (cases "?rem = []")
    case True
    with r have "st' = \<lparr>calculators = [getNewCalculator now_p newId 1], activeTabId = Some (JNum newId)\<rparr>"
      by (simp add: handleRemoveTab_def)
    then show ?thesis by (simp add: tabs_ok_def cid_getNewCalculator)
  next
    case ne: False
    show ?thesis
    proof (cases "x = activeTabId st")
      case True
      let ?k = "nat (max 0 (findIndex (\<lambda>c. cid c = x) (calculators st) - 1))"
      from r ne True have k: "?k < length ?rem"
        and s: "st' = \<lparr>calculators = ?rem, activeTabId = cid (?rem ! ?k)\<rparr>"
        by (auto simp: handleRemoveTab_def Let_def split: if_splits)
      from k have "?rem ! ?k \<in> set ?rem" by (rule nth_mem)
      then have "cid (?rem ! ?k) \<in> set (map cid ?rem)" by simp
      with s ne show ?thesis by (simp add: tabs_ok_def)
    next
      case False
      with r ne have s: "st' = \<lparr>calculators = ?rem, activeTabId = activeTabId st\<rparr>"
        by (auto simp: handleRemoveTab_def Let_def split: if_splits)
      from ok obtain c where "c \<in> set (calculators st)" "cid c = activeTabId st"
        by (auto simp: tabs_ok_def)
      with False have "c \<in> set ?rem" by auto
      with \<open>cid c = activeTabId st\<close> have "activeTabId st \<in> set (map cid ?rem)" by force
      with s ne show ?thesis by (simp add: tabs_ok_def)
    qed
  qed
qed

lemma tabs_ok_map:
  assumes "tabs_ok st" and "\<And>c. cid (f c) = cid c"
  shows "tabs_ok (st\<lparr>calculators := map f (calculators st)\<rparr>)"
proof -
  from assms(2) have "map cid (map f (calculators st)) = map cid (calculators st)" by simp
  with assms(1) show ?thesis by (simp add: tabs_ok_def)
qed

lemma tabs_ok_rename: "tabs_ok st \<Longrightarrow> tabs_ok (handleRenameTab i newName st)"
  unfolding handleRenameTab_def by (rule tabs_ok_map) (simp_all add: cid_def)

lemma id_not_content: "''id'' \<notin> content_fields"
  by (simp add: content_fields_def)

lemma tabs_ok_update:
  assumes "tabs_ok st" and "dom partialState \<subseteq> content_fields"
  shows "tabs_ok (handleUpdateInstance partialState st)"
proof -
  from assms(2) id_not_content have "partialState ''id'' = None" by blast
  then have "\<And>c. cid (c ++ partialState) = cid c" by (simp add: cid_def map_add_def)
  then show ?thesis
    unfolding handleUpdateInstance_def by (intro tabs_ok_map assms(1)) simp
qed

lemma tabs_ok_clear: "tabs_ok st \<Longrightarrow> tabs_ok (handleClearActiveTabFields now st)"
  unfolding handleClearActiveTabFields_def by (rule tabs_ok_map) (simp_all add: cid_def map_add_def)

lemma tabs_ok_step: "tabs_ok st \<Longrightarrow> op_ok op \<Longrightarrow> tabs_ok (step st op)"
proof (cases op)
  case (AddArbitrage newId now_p)
  assume "tabs_ok st"
  with AddArbitrage show ?thesis
    by (auto simp: step_def split: sum.splits dest: tabs_ok_add_arbitrage)
next
  case (AddFunding newId)
  assume "tabs_ok st"
  with AddFunding show ?thesis
    by (auto simp: step_def split: sum.splits dest: tabs_ok_add_funding)
next
  case (RemoveTab i newId now_p)
  assume "tabs_ok st"
  with RemoveTab show ?thesis
    by (auto simp: step_def split: sum.splits dest: tabs_ok_remove)
next
  case (RenameTab i newName)
  assume "tabs_ok st"
  with RenameTab show ?thesis by (simp add: step_def tabs_ok_rename)
next
  case (UpdateInstance partialState)
  assume "tabs_ok st" "op_ok op"
  with UpdateInstance show ?thesis by (simp add: step_def tabs_ok_update)
next
  case (ClearFields now)
  assume "tabs_ok st"
  with ClearFields show ?thesis by (simp add: step_def tabs_ok_clear)
qed

lemma tabs_ok_run: "tabs_ok st \<Longrightarrow> \<forall>op\<in>set ops. op_ok op \<Longrightarrow> tabs_ok (run ops st)"
  unfolding run_def
proof (induction ops arbitrary: st)
  case Nil
  then show ?case by simp
next
  case (Cons op ops)
  then show ?case by (simp add: tabs_ok_step)
qed

subsection \<open>The load\<close>

lemma cid_migrate: "cid c = Some v \<Longrightarrow> cid (migrate now c) = Some v"
  by (simp add: migrate_def cid_def map_add_def)

lemma cid_overlay:
  assumes "cid cloudCalc = Some v"
  shows "cid (case find (\<lambda>lc. cid lc = cid cloudCalc) local of
                Some localMatch \<Rightarrow> cloudCalc ++ localMatch
              | None \<Rightarrow> cloudCalc) = Some v"
proof (cases "find (\<lambda>lc. cid lc = cid cloudCalc) local")
  case None
  with assms show ?thesis by simp
next
  case (Some localMatch)
  then have "cid localMatch = cid cloudCalc" by (auto simp: find_Some_iff)
  with assms Some show ?thesis by (simp add: cid_def map_add_def)
qed

lemma member_mergeCalculators:
  assumes "Some v \<in> set (map cid cloud)"
  shows "Some v \<in> set (map cid (mergeCalculators cloud local))"
proof -
  from assms obtain c where c: "c \<in> set cloud" "cid c = Some v" by auto
  let ?m = "case find (\<lambda>lc. cid lc = cid c) local of
              Some localMatch \<Rightarrow> c ++ localMatch | None \<Rightarrow> c"
  from c(1) have "?m \<in> set (mergeCalculators cloud local)"
    by (auto simp: mergeCalculators_def)
  moreover from c(2) have "cid ?m = Some v" by (rule cid_overlay)
  ultimately show ?thesis by force
qed

lemma member_migratedCalculators:
  assumes "Some v \<in> set (map cid calcs)"
  shows "Some v \<in> set (map cid (migratedCalculators clock calcs))"
proof -
  from assms obtain k where k: "k < length calcs" "cid (calcs ! k) = Some v"
    by (auto simp: in_set_conv_nth)
  from k(1) have "(k, calcs ! k) \<in> set (enumerate 0 calcs)"
    by (simp add: in_set_enumerate_eq)
  then have "migrate (clock k) (calcs ! k) \<in> set (migratedCalculators clock calcs)"
    unfolding migratedCalculators_def by force
  moreover from k(2) have "cid (migrate (clock k) (calcs ! k)) = Some v" by (rule cid_migrate)
  ultimately show ?thesis by force
qed

lemma truthy_Some: "truthy a \<Longrightarrow> \<exists>v. a = Some v"
  by (cases a) simp_all

lemma length_migratedCalculators: "length (migratedCalculators clock calcs) = length calcs"
  by (simp add: migratedCalculators_def)


lemma tabs_ok_loaded:
  assumes "calcs \<noteq> []" and "truthy a \<longrightarrow> a \<in> set (map cid calcs)"
  shows "tabs_ok \<lparr>calculators = migratedCalculators clock calcs,
                  activeTabId = (if truthy a then a else cid (hd (migratedCalculators clock calcs)))\<rparr>"
proof -
  from assms(1) have ne: "migratedCalculators clock calcs \<noteq> []"
    using length_migratedCalculators [of clock calcs] by (metis length_0_conv)
  show ?thesis
  proof (cases "truthy a")
    case True
    with assms(2) truthy_Some obtain v where "a = Some v" "Some v \<in> set (map cid calcs)"
      by blast
    with member_migratedCalculators [of v calcs clock] True ne show ?thesis
      by (simp add: tabs_ok_def)
  next
    case False
    from ne have "hd (migratedCalculators clock calcs) \<in> set (migratedCalculators clock calcs)"
      by (rule hd_in_set)
    then have "cid (hd (migratedCalculators clock calcs)) \<in> set (map cid (migratedCalculators clock calcs))"
      by simp
    with False ne show ?thesis by (simp add: tabs_ok_def)
  qed
qed

lemma settings_ok_member:
  "settings_ok s \<Longrightarrow> s_calculators s = Some calcs \<Longrightarrow>
   truthy (s_activeTabId s) \<longrightarrow> s_activeTabId s \<in> set (map cid calcs)"
  by (simp add: settings_ok_def)

lemma settings_ok_merged:
  assumes "settings_ok s" and "s_calculators s = Some cloud"
  shows "truthy (s_activeTabId s) \<longrightarrow> s_activeTabId s \<in> set (map cid (mergeCalculators cloud local))"
proof
  assume t: "truthy (s_activeTabId s)"
  with settings_ok_member [OF assms] have m: "s_activeTabId s \<in> set (map cid cloud)" by simp
  from t truthy_Some obtain v where "s_activeTabId s = Some v" by blast
  with m member_mergeCalculators [of v cloud local]
  show "s_activeTabId s \<in> set (map cid (mergeCalculators cloud local))" by simp
qed

lemma tabs_ok_loadSettings:
  assumes ok: "tabs_ok st"
    and b: "case (case cloudSettings of Some cloud \<Rightarrow> Some cloud | None \<Rightarrow> localSettings) of
              None \<Rightarrow> True | Some baseSettings \<Rightarrow> settings_ok baseSettings"
    and l: "loadSettings clock cloudSettings localSettings st = Inr st'"
  shows "tabs_ok st'"
proof (cases "case cloudSettings of Some cloud \<Rightarrow> Some cloud | None \<Rightarrow> localSettings")
  case None
  with l ok show ?thesis by (simp add: loadSettings_def)
next
  case (Some base)
  with b have sb: "settings_ok base" by simp
  show ?thesis
  proof (cases "mergedCalculators cloudSettings localSettings base")
    case (Inl e)
    with l Some show ?thesis by (simp add: loadSettings_def)
  next
    case (Inr m)
    show ?thesis
    proof (cases m)
      case None
      with l Some Inr ok show ?thesis by (simp add: loadSettings_def)
    next
      case (Some calcs)
      show ?thesis
      proof (cases calcs)
        case Nil
        with l \<open>m = Some calcs\<close> \<open>_ = Some base\<close> Inr ok show ?thesis
          by (simp add: loadSettings_def)
      next
        case (Cons c cs)
        have mem: "truthy (s_activeTabId base) \<longrightarrow> s_activeTabId base \<in> set (map cid calcs)"
        proof (cases cloudSettings)
          case None
          with \<open>_ = Some base\<close> Inr \<open>m = Some calcs\<close> have "s_calculators base = Some calcs"
            by (simp add: mergedCalculators_def)
          with sb show ?thesis by (rule settings_ok_member)
        next
          case cl: (Some cloud)
          with \<open>_ = Some base\<close> have [simp]: "cloud = base" by simp
          show ?thesis
          proof (cases localSettings)
            case None
            with cl Inr \<open>m = Some calcs\<close> have "s_calculators base = Some calcs"
              by (simp add: mergedCalculators_def)
            with sb show ?thesis by (rule settings_ok_member)
          next
            case lo: (Some local)
            with cl Inr \<open>m = Some calcs\<close> Cons obtain cc lc
              where "s_calculators base = Some cc" "mergeCalculators cc lc = calcs"
              by (auto simp: mergedCalculators_def split: option.splits if_splits)
            with settings_ok_merged [OF sb, of cc lc] show ?thesis by simp
          qed
        qed
        from Cons have ne: "calcs \<noteq> []" by simp
        from l \<open>_ = Some base\<close> Inr \<open>m = Some calcs\<close> Cons
        have "st' = \<lparr>calculators = migratedCalculators clock calcs,
                     activeTabId = (if truthy (s_activeTabId base) then s_activeTabId base
                                    else cid (hd (migratedCalculators clock calcs)))\<rparr>"
          by (auto simp: loadSettings_def Let_def)
        with tabs_ok_loaded [OF ne mem, of clock] show ?thesis by simp
      qed
    qed
  qed
qed

text \<open>
  Claim C7, as amended. The collection is non-empty and the active identifier names one of
  its members in the initial state, after every sequence of tab operations (add, remove,
  rename, update with a patch over content fields, clear) from such a state, and after the
  load-time merge is applied to such a state, provided the active identifier of the
  snapshot the load starts from (the remote one when there is one, else the local one),
  when it has one, is the identifier of one of that snapshot's calculators.
\<close>

theorem tabs_ok_invariant:
  "tabs_ok (initial_tabs newId now_p) \<and>
   (tabs_ok st \<and> (\<forall>op\<in>set ops. op_ok op) \<longrightarrow> tabs_ok (run ops st)) \<and>
   (tabs_ok st \<and>
    (case (case cloudSettings of Some cloud \<Rightarrow> Some cloud | None \<Rightarrow> localSettings) of
       None \<Rightarrow> True | Some baseSettings \<Rightarrow> settings_ok baseSettings) \<longrightarrow>
    tabs_ok (stateAfterLoad clock cloudSettings localSettings st))"
proof (intro conjI impI)
  show "tabs_ok (initial_tabs newId now_p)" by (rule tabs_ok_initial)
next
  assume "tabs_ok st \<and> (\<forall>op\<in>set ops. op_ok op)"
  then show "tabs_ok (run ops st)" by (simp add: tabs_ok_run)
next
  assume a: "tabs_ok st \<and>
    (case (case cloudSettings of Some cloud \<Rightarrow> Some cloud | None \<Rightarrow> localSettings) of
       None \<Rightarrow> True | Some baseSettings \<Rightarrow> settings_ok baseSettings)"
  show "tabs_ok (stateAfterLoad clock cloudSettings localSettings st)"
  proof (cases "loadSettings clock cloudSettings localSettings st")
    case (Inl e)
    with a show ?thesis by (simp add: stateAfterLoad_def)
  next
    case (Inr st')
    from a have "tabs_ok st'" by (intro tabs_ok_loadSettings [OF _ _ Inr]) simp_all
    with Inr show ?thesis by (simp add: stateAfterLoad_def)
  qed
qed

theorem tabs_ok_invariant_witness:
  "tabs_ok (initial_tabs 1 1) \<and>
   list_all op_ok [AddFunding 2, UpdateInstance [''positionSize'' \<mapsto> JStr ''1000''],
                   RemoveTab (Some (JNum 1)) 3 3, RenameTab (Some (JNum 2)) ''x'', ClearFields 4,
                   AddArbitrage 5 5] \<and>
   tabs_ok (run [AddFunding 2, UpdateInstance [''positionSize'' \<mapsto> JStr ''1000''],
                 RemoveTab (Some (JNum 1)) 3 3, RenameTab (Some (JNum 2)) ''x'', ClearFields 4,
                 AddArbitrage 5 5] (initial_tabs 1 1)) \<and>
   settings_ok \<lparr>s_calculators = Some [getNewCalculator 0 7 1], s_activeTabId = Some (JNum 7)\<rparr> \<and>
   tabs_ok (stateAfterLoad real
              (Some \<lparr>s_calculators = Some [getNewCalculator 0 7 1], s_activeTabId = Some (JNum 7)\<rparr>)
              None (initial_tabs 1 1))"
proof -
  let ?ops = "[AddFunding 2, UpdateInstance [''positionSize'' \<mapsto> JStr ''1000''],
               RemoveTab (Some (JNum 1)) 3 3, RenameTab (Some (JNum 2)) ''x'', ClearFields 4,
               AddArbitrage 5 5]"
  let ?s = "\<lparr>s_calculators = Some [getNewCalculator 0 7 1], s_activeTabId = Some (JNum 7)\<rparr>"
  have o: "\<forall>op\<in>set ?ops. op_ok op" by (simp add: content_fields_def)
  have s: "settings_ok ?s" by (simp add: settings_ok_def cid_getNewCalculator)
  note t = tabs_ok_invariant [where newId = 1 and now_p = 1 and st = "initial_tabs 1 1"
      and ops = ?ops and cloudSettings = "Some ?s" and localSettings = None and clock = real]
  from t have i: "tabs_ok (initial_tabs 1 1)" by (rule conjunct1)
  from t i o have r: "tabs_ok (run ?ops (initial_tabs 1 1))" by blast
  from t i s have l: "tabs_ok (stateAfterLoad real (Some ?s) None (initial_tabs 1 1))" by simp
  from o have "list_all op_ok ?ops" by (simp add: list_all_iff)
  with i r s l show ?thesis by blast
qed

text \<open>
  A snapshot whose active identifier names none of its calculators is loaded as it is: the
  active identifier of the state then names no member.
\<close>

theorem tabs_ok_counterexample:
  "tabs_ok (initial_tabs 1 1) \<and>
   \<not> tabs_ok (stateAfterLoad real
                (Some \<lparr>s_calculators = Some [getNewCalculator 0 7 1], s_activeTabId = Some (JNum 99)\<rparr>)
                None (initial_tabs 1 1))"
proof -
  have "cid (migrate (real 0) (getNewCalculator 0 7 1)) = Some (JNum 7)"
    by (rule cid_migrate) (rule cid_getNewCalculator)
  then have "\<not> tabs_ok (stateAfterLoad real
                (Some \<lparr>s_calculators = Some [getNewCalculator 0 7 1], s_activeTabId = Some (JNum 99)\<rparr>)
                None (initial_tabs 1 1))"
    by (simp add: stateAfterLoad_def loadSettings_def mergedCalculators_def
        migratedCalculators_def tabs_ok_def)
  with tabs_ok_initial [of 1 1] show ?thesis by simp
qed

section \<open>Examples of removal and of the caps\<close>

lemma three_tabs_index:
  assumes "i < length [getNewCalculator 0 1 1, getNewFundingCalculator 2 1, getNewCalculator 0 3 2]"
    and "cid ([getNewCalculator 0 1 1, getNewFundingCalculator 2 1, getNewCalculator 0 3 2] ! i)
           = Some (JNum 2)"
  shows "i = 1"
proof -
  from assms(1) have "i = 0 \<or> i = 1 \<or> i = 2" by auto
  with assms(2) show ?thesis
    by (auto simp: cid_getNewCalculator cid_getNewFundingCalculator)
qed


theorem handleRemoveTab_frame_witness:
  "2 \<le> length [getNewCalculator 0 1 1, getNewFundingCalculator 2 1, getNewCalculator 0 3 2] \<and>
   distinct (map cid [getNewCalculator 0 1 1, getNewFundingCalculator 2 1, getNewCalculator 0 3 2]) \<and>
   Some (JNum 2) \<in> set (map cid [getNewCalculator 0 1 1, getNewFundingCalculator 2 1, getNewCalculator 0 3 2]) \<and>
   Some (JNum 2) \<noteq> Some (JNum 3) \<and>
   handleRemoveTab 9 8 (Some (JNum 2))
     \<lparr>calculators = [getNewCalculator 0 1 1, getNewFundingCalculator 2 1, getNewCalculator 0 3 2],
      activeTabId = Some (JNum 3)\<rparr> =
   Inr \<lparr>calculators = [getNewCalculator 0 1 1, getNewCalculator 0 3 2], activeTabId = Some (JNum 3)\<rparr>"
proof -
  let ?cs = "[getNewCalculator 0 1 1, getNewFundingCalculator 2 1, getNewCalculator 0 3 2]"
  have m: "Some (JNum 2) \<in> set (map cid ?cs)"
    by (simp add: cid_getNewCalculator cid_getNewFundingCalculator)
  have d: "distinct (map cid ?cs)"
    by (simp add: cid_getNewCalculator cid_getNewFundingCalculator)
  have l: "2 \<le> length ?cs" by simp
  have n: "Some (JNum 2) \<noteq> Some (JNum 3)" by simp
  from handleRemoveTab_frame [OF l d m n, of 9 8]
  obtain i where i: "i < length ?cs" "cid (?cs ! i) = Some (JNum 2)"
    and r: "handleRemoveTab 9 8 (Some (JNum 2)) \<lparr>calculators = ?cs, activeTabId = Some (JNum 3)\<rparr> =
            Inr \<lparr>calculators = take i ?cs @ drop (Suc i) ?cs, activeTabId = Some (JNum 3)\<rparr>"
    by blast
  from three_tabs_index [OF i] have "i = 1" .
  with r have "handleRemoveTab 9 8 (Some (JNum 2)) \<lparr>calculators = ?cs, activeTabId = Some (JNum 3)\<rparr> =
      Inr \<lparr>calculators = [getNewCalculator 0 1 1, getNewCalculator 0 3 2], activeTabId = Some (JNum 3)\<rparr>"
    by simp
  with l d m n show ?thesis by blast
qed

theorem log_and_history_caps_witness:
  "length [JNull, JNull] \<le> 100 \<and>
   length (logPeriods [(zero_result\<lparr>netProfitUSD := 1\<rparr>, 1, ''t'')] [JNull, JNull]) \<le> 100 \<and>
   length ([] :: HistoryEntry list) \<le> 50 \<and>
   length (addAllToHistory [(''Abertura'', JNull, ''1.59'', ''C 1'', 1, ''t'')] []) \<le> 50 \<and>
   netProfitUSD (zero_result\<lparr>netProfitUSD := 1\<rparr>) \<noteq> 0 \<and>
   handleLogPeriod (zero_result\<lparr>netProfitUSD := 1\<rparr>) 1 ''t'' [JNull, JNull] =
     Some (JObj [''id'' \<mapsto> JNum 1, ''timestamp'' \<mapsto> JStr ''t'', ''profit'' \<mapsto> JNum 1,
                 ''rate'' \<mapsto> JNum 0] # [JNull, JNull]) \<and>
   ''1.59'' \<noteq> [] \<and> ''1.59'' \<noteq> ''0.00'' \<and> ''1.59'' \<noteq> ''0.0000'' \<and>
   addToHistory ''Abertura'' JNull ''1.59'' ''C 1'' 1 ''t'' [] =
     [\<lparr>h_id = 1, h_timestamp = ''t'', h_type = ''Abertura'', h_inputs = JNull,
       h_result = ''1.59'', h_tabName = ''C 1''\<rparr>]"
  using log_and_history_caps [where logEntries = "[JNull, JNull]"
      and calls = "[(zero_result\<lparr>netProfitUSD := 1\<rparr>, 1, ''t'')]"
      and history = "[]" and hcalls = "[(''Abertura'', JNull, ''1.59'', ''C 1'', 1, ''t'')]"
      and calc = "zero_result\<lparr>netProfitUSD := 1\<rparr>" and now = 1 and stamp = "''t''"
      and result = "''1.59''" and type = "''Abertura''" and inputs = JNull and tabName = "''C 1''"]
  by (simp add: zero_result_def)

section \<open>Numbering of new tabs\<close>

lemma id_getNewCalculator: "getNewCalculator now i n ''id'' = Some (JNum i)"
  by (simp add: getNewCalculator_def)

lemma type_getNewCalculator: "getNewCalculator now i n ''type'' = Some (JStr ''arbitrage'')"
  by (simp add: getNewCalculator_def)

lemma name_getNewCalculator: "getNewCalculator now i n ''name'' = Some (JStr (''C '' @ show_nat n))"
  by (simp add: getNewCalculator_def)

lemmas tab_eval = tab_names_def run_def step_def initial_tabs_def handleAddArbitrageTab_def handleRenameTab_def
  handleRemoveTab_def cid_def id_getNewCalculator type_getNewCalculator name_getNewCalculator
  tab_number_def show_nat.simps is_digit_def digits_val_def digit_val_def Let_def

text \<open>
  The scan finds the least unused positive number when the numbers it is given are
  distinct and positive, that is when every tab of the variant carries a name of the
  pattern with a number of its own.
\<close>

lemma newCount_scan:
  "sorted ns \<Longrightarrow> distinct ns \<Longrightarrow> \<forall>x\<in>set ns. c \<le> x \<Longrightarrow>
   newCount c ns \<notin> set ns \<and> c \<le> newCount c ns \<and> (\<forall>m. c \<le> m \<and> m < newCount c ns \<longrightarrow> m \<in> set ns)"
proof (induction ns arbitrary: c)
  case Nil
  then show ?case by simp
next
  case (Cons x xs)
  show ?case
  proof (cases "x = c")
    case True
    from Cons.prems have s: "sorted xs" and d: "distinct xs" by simp_all
    from Cons.prems True have "\<forall>y\<in>set xs. c + 1 \<le> y"
      by (metis Suc_eq_plus1 Suc_leI distinct.simps(2) le_neq_implies_less list.set_intros(2))
    from Cons.IH [OF s d this]
    have a: "newCount (c + 1) xs \<notin> set xs" and b: "c + 1 \<le> newCount (c + 1) xs"
      and e: "\<And>m. c + 1 \<le> m \<Longrightarrow> m < newCount (c + 1) xs \<Longrightarrow> m \<in> set xs"
      by simp_all
    have "m \<in> set (x # xs)" if "c \<le> m" "m < newCount (c + 1) xs" for m
    proof (cases "m = c")
      case True
      with \<open>x = c\<close> show ?thesis by simp
    next
      case False
      with that(1) have "c + 1 \<le> m" by simp
      from e [OF this that(2)] show ?thesis by simp
    qed
    with a b True show ?thesis by auto
  next
    case False
    with Cons.prems have "c < x" by (simp add: le_neq_implies_less)
    moreover from Cons.prems have "\<forall>y\<in>set xs. x \<le> y" by simp
    ultimately have "c \<notin> set (x # xs)" by auto
    with False show ?thesis by simp
  qed
qed

lemma newCount_least:
  assumes "distinct ns" and "\<forall>x\<in>set ns. 0 < x"
  shows "newCount 1 (sort ns) = (LEAST n. 0 < n \<and> n \<notin> set ns)"
proof -
  from assms have "sorted (sort ns)" "distinct (sort ns)" "\<forall>x\<in>set (sort ns). 1 \<le> x"
    by (simp_all add: Suc_leI)
  from newCount_scan [OF this]
  have a: "newCount 1 (sort ns) \<notin> set ns" and b: "1 \<le> newCount 1 (sort ns)"
    and c: "\<And>m. 1 \<le> m \<Longrightarrow> m < newCount 1 (sort ns) \<Longrightarrow> m \<in> set ns"
    by simp_all
  show ?thesis
  proof (rule Least_equality [symmetric])
    from a b show "0 < newCount 1 (sort ns) \<and> newCount 1 (sort ns) \<notin> set ns" by simp
  next
    fix y assume "0 < y \<and> y \<notin> set ns"
    with c [of y] show "newCount 1 (sort ns) \<le> y" by (metis Suc_leI One_nat_def not_le)
  qed
qed

text \<open>
  Names written by the templates read back as their numbers, so a collection in which no
  tab was renamed presents the scan with the numbers of its tabs.
\<close>

lemma digit_char:
  assumes "d < 10"
  shows "is_digit (''0123456789'' ! d) \<and> digit_val (''0123456789'' ! d) = d"
proof -
  from assms have "d \<in> {0, 1, 2, 3, 4, 5, 6, 7, 8, 9}" by auto
  then show ?thesis by (auto simp: is_digit_def digit_val_def)
qed

lemma digits_val_snoc: "digits_val (ds @ [c]) = 10 * digits_val ds + digit_val c"
  by (simp add: digits_val_def)

lemma show_nat_digits:
  "show_nat n \<noteq> [] \<and> list_all is_digit (show_nat n) \<and> digits_val (show_nat n) = n"
proof (induction n rule: show_nat.induct)
  case (1 n)
  show ?case
  proof (cases "n < 10")
    case True
    then have "show_nat n = [''0123456789'' ! n]" by (simp add: show_nat.simps)
    with digit_char [OF True] show ?thesis by (simp add: digits_val_def)
  next
    case False
    then have s: "show_nat n = show_nat (n div 10) @ [''0123456789'' ! (n mod 10)]"
      by (subst show_nat.simps) simp
    have "n mod 10 < 10" by simp
    from digit_char [OF this] "1.IH" [OF False] show ?thesis
      by (simp add: s digits_val_snoc)
  qed
qed

lemma tab_number_name: "tab_number prefix (prefix @ show_nat n) = n"
  by (simp add: tab_number_def show_nat_digits)

lemma existingNumbers_names:
  "map (\<lambda>c. c ''name'') cs = map (\<lambda>k. Some (JStr (prefix @ show_nat k))) ns \<Longrightarrow>
   existingNumbers prefix cs = Inr ns"
proof (induction cs arbitrary: ns)
  case Nil
  then show ?case by simp
next
  case (Cons c cs)
  then obtain k ks where ns: "ns = k # ks" by (cases ns) auto
  with Cons.prems have "c ''name'' = Some (JStr (prefix @ show_nat k))"
    and "map (\<lambda>c. c ''name'') cs = map (\<lambda>k. Some (JStr (prefix @ show_nat k))) ks"
    by simp_all
  with Cons.IH [of ks] ns show ?case by (simp add: tab_number_name)
qed

lemma handleAddArbitrageTab_least:
  assumes "map (\<lambda>c. c ''name'') (filter (\<lambda>c. c ''type'' = Some (JStr ''arbitrage'')) (calculators st)) =
           map (\<lambda>k. Some (JStr (''C '' @ show_nat k))) ns"
    and "distinct ns" and "\<forall>k\<in>set ns. 0 < k"
  shows "handleAddArbitrageTab newId now_p st =
         Inr \<lparr>calculators =
                calculators st @ [getNewCalculator now_p newId (LEAST n. 0 < n \<and> n \<notin> set ns)],
              activeTabId = Some (JNum newId)\<rparr>"
  using existingNumbers_names [OF assms(1)] newCount_least [OF assms(2,3)]
  by (simp add: handleAddArbitrageTab_def)

text \<open>
  The example of the specification: with the tabs C 1, C 2 and C 3, removing C 2 and adding
  an arbitrage tab gives a tab named C 2.
\<close>

lemma gap_fill_example:
  "tab_names (run [AddArbitrage 2 2, AddArbitrage 3 3, RemoveTab (Some (JNum 2)) 9 9,
                   AddArbitrage 4 4] (initial_tabs 1 1)) =
     [Some (JStr ''C 1''), Some (JStr ''C 3''), Some (JStr ''C 2'')]"
  by (simp add: tab_eval)

text \<open>
  Claim C2 says that a new arbitrage tab is named with the smallest positive number that
  no arbitrage tab named \<open>C n\<close> carries. After the first tab is renamed, the scan meets the 0
  that stands for the renamed tab first and stops at once: two tabs added one after the other
  are both named C 1.
\<close>

theorem handleAddArbitrageTab_after_rename:
  "tab_names (run [RenameTab (Some (JNum 1)) ''BTC'', AddArbitrage 2 2, AddArbitrage 3 3]
                (initial_tabs 1 1)) =
     [Some (JStr ''BTC''), Some (JStr ''C 1''), Some (JStr ''C 1'')]"
  by (simp add: tab_eval)

section \<open>Failures of device-local storage\<close>

text \<open>
  Claim C9 says that every read of device-local storage catches read errors and corrupt
  JSON and goes on with the state in memory. The read of the settings does; the read of
  the history, in the same effect, does not: its failure leaves the effect as an
  exception.
\<close>

theorem mountEffect_history_unguarded:
  "mountEffect clock cloudSettings localRead Corrupt s = Inl SyntaxError \<and>
   mountEffect clock cloudSettings localRead Unreadable s = Inl StorageError \<and>
   mountEffect clock None Corrupt Absent s = Inr s \<and>
   mountEffect clock None Unreadable Absent s = Inr s"
  by (simp add: mountEffect_def readHistory_def readLocalSettings_def stateAfterLoad_def
      loadSettings_def)

section \<open>The merge at load time\<close>













end
